theory Spec2Isabelle
  imports Main "HOL-Library.Multiset"
begin

section \<open>Strings as the script reads them\<close>

text \<open>
  JavaScript strings are modelled as \<open>string\<close>. \<open>toUpperCase\<close> and \<open>toLowerCase\<close> are
  modelled on the ASCII letters; every other character is left as it is.
\<close>

definition lowerAlphabet :: string where
  "lowerAlphabet = ''abcdefghijklmnopqrstuvwxyz''"

definition upperAlphabet :: string where
  "upperAlphabet = ''ABCDEFGHIJKLMNOPQRSTUVWXYZ''"

definition toUpperChar :: "char \<Rightarrow> char" where
  "toUpperChar c = (case map_of (zip lowerAlphabet upperAlphabet) c of Some u \<Rightarrow> u | None \<Rightarrow> c)"

definition toLowerChar :: "char \<Rightarrow> char" where
  "toLowerChar c = (case map_of (zip upperAlphabet lowerAlphabet) c of Some u \<Rightarrow> u | None \<Rightarrow> c)"

definition toUpperCase :: "string \<Rightarrow> string" where
  "toUpperCase s = map toUpperChar s"

definition toLowerCase :: "string \<Rightarrow> string" where
  "toLowerCase s = map toLowerChar s"

text \<open>\<open>s.startsWith(t)\<close> and \<open>s.includes(t)\<close>: \<open>t\<close> occurs in \<open>s\<close> as a contiguous run.\<close>

fun startsWith :: "string \<Rightarrow> string \<Rightarrow> bool" where
  "startsWith s [] = True"
| "startsWith [] (c # t) = False"
| "startsWith (x # s) (c # t) = (x = c \<and> startsWith s t)"

fun stringIncludes :: "string \<Rightarrow> string \<Rightarrow> bool" where
  "stringIncludes [] t = (t = [])"
| "stringIncludes (x # s) t = (startsWith (x # s) t \<or> stringIncludes s t)"

definition isSpace :: "char \<Rightarrow> bool" where
  "isSpace c = (c \<in> set [CHR 0x20, CHR 0x09, CHR 0x0A, CHR 0x0C, CHR 0x0D])"

text \<open>Splitting an attribute value on ASCII whitespace, as \<open>classList\<close> does.\<close>

fun splitOnSpace :: "string \<Rightarrow> string \<Rightarrow> string list" where
  "splitOnSpace acc [] = (if acc = [] then [] else [acc])"
| "splitOnSpace acc (c # s) =
     (if isSpace c then (if acc = [] then splitOnSpace [] s else acc # splitOnSpace [] s)
      else splitOnSpace (acc @ [c]) s)"

section \<open>The document tree\<close>

text \<open>
  The page is an HTML document in no-quirks mode and every element is an HTML element. An
  element carries its local name, its content attributes in source order, the \<open>display\<close>
  property of its inline style (\<open>element.style.display\<close>, the empty string when it is not
  set) and its children. A node is addressed by its path: the child indices from the root.
\<close>

datatype node =
    Element string "(string \<times> string) list" string "node list"
  | Text string
  | Comment string

type_synonym path = "nat list"

fun nodeType :: "node \<Rightarrow> nat" where
  "nodeType (Element l a d cs) = 1"
| "nodeType (Text s) = 3"
| "nodeType (Comment s) = 8"

definition ELEMENT_NODE :: nat where
  "ELEMENT_NODE = 1"

fun localName :: "node \<Rightarrow> string" where
  "localName (Element l a d cs) = l"
| "localName n = []"

fun attributes :: "node \<Rightarrow> (string \<times> string) list" where
  "attributes (Element l a d cs) = a"
| "attributes n = []"

fun display :: "node \<Rightarrow> string" where
  "display (Element l a d cs) = d"
| "display n = []"

fun childNodes :: "node \<Rightarrow> node list" where
  "childNodes (Element l a d cs) = cs"
| "childNodes n = []"

text \<open>\<open>node.tagName\<close> of an HTML element: the local name in ASCII upper case.\<close>

definition tagName :: "node \<Rightarrow> string" where
  "tagName n = toUpperCase (localName n)"

text \<open>
  \<open>node.getAttribute(name)\<close>: on an HTML element the name is lower-cased first; the result
  is \<open>null\<close> (\<open>None\<close>) when the attribute is absent.
\<close>

definition getAttribute :: "node \<Rightarrow> string \<Rightarrow> string option" where
  "getAttribute n name = map_of (attributes n) (toLowerCase name)"

definition classList :: "node \<Rightarrow> string list" where
  "classList n = (case getAttribute n ''class'' of None \<Rightarrow> [] | Some c \<Rightarrow> splitOnSpace [] c)"

definition title :: "node \<Rightarrow> string" where
  "title n = (case getAttribute n ''title'' of None \<Rightarrow> [] | Some t \<Rightarrow> t)"

text \<open>
  \<open>anchor.href\<close> is the \<open>href\<close> attribute resolved against the document's base URL, and the
  empty string when the attribute is absent. URL resolution belongs to the browser; it is a
  parameter of the model.
\<close>

type_synonym resolver = "string \<Rightarrow> string"

definition href :: "resolver \<Rightarrow> node \<Rightarrow> string" where
  "href resolveURL n = (case getAttribute n ''href'' of None \<Rightarrow> [] | Some h \<Rightarrow> resolveURL h)"

text \<open>
  The resolver used in the examples: a page served from \<open>origin\<close> resolves a path-absolute
  reference (\<open>/a/b\<close>) by putting the origin in front of it.
\<close>

definition resolveAt :: "string \<Rightarrow> resolver" where
  "resolveAt origin h = (if startsWith h ''/'' \<and> \<not> startsWith h ''//'' then origin @ h else h)"

text \<open>\<open>node.textContent\<close>: the text of all descendant text nodes, in tree order.\<close>

fun descendantText :: "node \<Rightarrow> string" where
  "descendantText (Element l a d cs) = concat (map descendantText cs)"
| "descendantText (Text s) = s"
| "descendantText (Comment s) = []"

fun textContent :: "node \<Rightarrow> string" where
  "textContent (Comment s) = s"
| "textContent n = descendantText n"

fun nodeAt :: "node \<Rightarrow> path \<Rightarrow> node option" where
  "nodeAt n [] = Some n"
| "nodeAt (Element l a d cs) (i # p) = (if i < length cs then nodeAt (cs ! i) p else None)"
| "nodeAt n (i # p) = None"

text \<open>Running \<open>f\<close> on the node at a path; the rest of the tree stays as it is.\<close>

fun updateAt :: "path \<Rightarrow> (node \<Rightarrow> node) \<Rightarrow> node \<Rightarrow> node" where
  "updateAt [] f n = f n"
| "updateAt (i # p) f (Element l a d cs) =
     (if i < length cs then Element l a d (cs[i := updateAt p f (cs ! i)]) else Element l a d cs)"
| "updateAt (i # p) f n = n"

text \<open>The elements of a subtree with their paths, in tree order, the root first.\<close>

fun elements :: "node \<Rightarrow> (path \<times> node) list"
  and elementsFrom :: "nat \<Rightarrow> node list \<Rightarrow> (path \<times> node) list" where
  "elements (Element l a d cs) = ([], Element l a d cs) # elementsFrom 0 cs"
| "elements (Text s) = []"
| "elements (Comment s) = []"
| "elementsFrom i [] = []"
| "elementsFrom i (c # cs) = map (\<lambda>(p, n). (i # p, n)) (elements c) @ elementsFrom (Suc i) cs"

section \<open>Selectors\<close>

text \<open>
  \<open>querySelectorAll\<close> parses its argument as a CSS selector. The fragment interpreted here
  is one compound selector: an optional type selector or \<open>*\<close>, followed by class, id and
  attribute selectors (\<open>[a]\<close>, \<open>[a="v"]\<close>, \<open>[a*="v"]\<close>, the value in double quotes and free of
  escapes). \<open>Invalid\<close> is the answer only where no reading of the CSS grammar accepts the
  text, and the engine raises \<open>SyntaxError\<close> there. \<open>Unmodelled\<close> is the answer for all other
  text outside the fragment (combinators, selector lists, pseudo-classes, escapes, comments,
  unquoted values, text that stops inside a bracket): the development says nothing on what
  the engine does with it.
\<close>

datatype simple =
    TypeSel string
  | Universal
  | ClassSel string
  | IdSel string
  | AttrExists string
  | AttrEquals string string
  | AttrContains string string

datatype 'a parsed = Parsed 'a | Invalid | Unmodelled

definition isLetter :: "char \<Rightarrow> bool" where
  "isLetter c = (c \<in> set (lowerAlphabet @ upperAlphabet))"

definition isDigit :: "char \<Rightarrow> bool" where
  "isDigit c = (c \<in> set ''0123456789'')"

definition identStart :: "char \<Rightarrow> bool" where
  "identStart c = (isLetter c \<or> c = CHR ''_'' \<or> digit7 c)"

definition identChar :: "char \<Rightarrow> bool" where
  "identChar c = (identStart c \<or> isDigit c \<or> c = CHR ''-'')"

text \<open>A run of identifier characters is an identifier unless it is empty, starts with a
  digit, is a lone hyphen or is a hyphen followed by a digit.\<close>

fun validIdent :: "string \<Rightarrow> bool" where
  "validIdent [] = False"
| "validIdent [c] = identStart c"
| "validIdent (c # d # s) = (if c = CHR ''-'' then identStart d \<or> d = CHR ''-'' else identStart c)"

definition isIdent :: "string \<Rightarrow> bool" where
  "isIdent s = (validIdent s \<and> list_all identChar s)"

text \<open>Characters with no place in a selector outside a string.\<close>

definition stray :: "char \<Rightarrow> bool" where
  "stray c = (c \<in> set [CHR ''!'', CHR '';'', CHR ''{'', CHR ''}'', CHR ''?'', CHR ''@'', CHR ''%'',
     CHR ''<'', CHR 0x60, CHR '')''])"

definition rejectedAt :: "string \<Rightarrow> string \<Rightarrow> 'a parsed" where
  "rejectedAt bad s =
     (case s of [] \<Rightarrow> Unmodelled
      | c # r \<Rightarrow> if stray c \<or> c \<in> set bad then Invalid else Unmodelled)"

text \<open>The identifier that must follow \<open>.\<close> or \<open>#\<close> at once.\<close>

definition parseName :: "(string \<Rightarrow> simple) \<Rightarrow> string \<Rightarrow> (simple \<times> string) parsed" where
  "parseName mk s =
     (let n = takeWhile identChar s; rest = dropWhile identChar s in
      if startsWith rest [CHR 0x5C] then Unmodelled
      else if validIdent n then Parsed (mk n, rest)
      else if n = [] \<and> rest \<noteq> [] then rejectedAt [CHR ''.'', CHR ''#'', CHR ''['', CHR '']'', CHR ''='', CHR 0x22] rest
      else Invalid)"

text \<open>The value of an attribute selector, after \<open>=\<close> or \<open>*=\<close>.\<close>

definition parseValue :: "(string \<Rightarrow> simple) \<Rightarrow> string \<Rightarrow> (simple \<times> string) parsed" where
  "parseValue mk s =
     (case s of
        [] \<Rightarrow> Unmodelled
      | c # body \<Rightarrow>
          if c = CHR 0x22 then
            (let v = takeWhile (\<lambda>x. x \<noteq> CHR 0x22) body;
                 after = dropWhile (\<lambda>x. x \<noteq> CHR 0x22) body in
             if after = [] then Unmodelled
             else if list_ex (\<lambda>x. x = CHR 0x5C \<or> x = CHR 0x0A \<or> x = CHR 0x0C \<or> x = CHR 0x0D) v then Unmodelled
             else (case tl after of
                     [] \<Rightarrow> Unmodelled
                   | e # r \<Rightarrow>
                       if e = CHR '']'' then Parsed (mk v, r)
                       else if isDigit e then Invalid
                       else rejectedAt [CHR 0x22, CHR ''['', CHR ''.'', CHR ''#'', CHR ''=''] (e # r)))
          else if isDigit c then Invalid
          else rejectedAt [CHR '']'', CHR ''='', CHR ''['', CHR ''.'', CHR ''#''] (c # body))"

text \<open>An attribute selector, after its \<open>[\<close>.\<close>

definition parseAttribute :: "string \<Rightarrow> (simple \<times> string) parsed" where
  "parseAttribute s =
     (let n = takeWhile identChar s; rest = dropWhile identChar s in
      if startsWith rest [CHR 0x5C] then Unmodelled
      else if validIdent n then
        (case rest of
           [] \<Rightarrow> Unmodelled
         | c # r \<Rightarrow>
             if c = CHR '']'' then Parsed (AttrExists n, r)
             else if c = CHR ''='' then parseValue (AttrEquals n) r
             else if c = CHR ''*'' \<and> startsWith r ''='' then parseValue (AttrContains n) (tl r)
             else rejectedAt [CHR 0x22, CHR ''['', CHR ''.'', CHR ''#''] (c # r))
      else if n = [] then rejectedAt [CHR '']'', CHR ''='', CHR 0x22, CHR ''['', CHR ''.'', CHR ''#''] rest
      else Invalid)"

text \<open>One class, id or attribute selector at the head of \<open>c # s\<close>.\<close>

definition parseSimple :: "char \<Rightarrow> string \<Rightarrow> (simple \<times> string) parsed" where
  "parseSimple c s =
     (if c = CHR ''.'' then parseName ClassSel s
      else if c = CHR ''#'' then parseName IdSel s
      else if c = CHR ''['' then parseAttribute s
      else if isDigit c then Invalid
      else rejectedAt [CHR 0x22, CHR '']'', CHR ''=''] (c # s))"

lemma parseName_length: "parseName mk s = Parsed (x, rest) \<Longrightarrow> length rest \<le> length s"
  by (auto simp: parseName_def Let_def rejectedAt_def length_dropWhile_le
      split: if_splits list.splits)

lemma tl_dropWhile_length:
  "tl (dropWhile P xs) = e # r \<Longrightarrow> length r < length xs"
proof -
  assume a: "tl (dropWhile P xs) = e # r"
  then have "length (dropWhile P xs) = Suc (Suc (length r))"
    by (cases "dropWhile P xs") auto
  then show ?thesis
    using length_dropWhile_le [of P xs] by simp
qed

lemma parseValue_length: "parseValue mk s = Parsed (x, rest) \<Longrightarrow> length rest < length s"
  by (auto simp: parseValue_def Let_def rejectedAt_def
      split: if_splits list.splits dest!: tl_dropWhile_length)

lemma parseAttribute_length:
  "parseAttribute s = Parsed (x, rest) \<Longrightarrow> length rest \<le> length s"
proof -
  have drop: "dropWhile identChar s = c # r \<Longrightarrow> length r < length s" for c r
    using length_dropWhile_le [of identChar s] by simp
  assume "parseAttribute s = Parsed (x, rest)"
  then show ?thesis
    by (auto simp: parseAttribute_def Let_def rejectedAt_def
        split: if_splits list.splits dest!: parseValue_length dest: drop)
qed

lemma parseSimple_length: "parseSimple c s = Parsed (x, rest) \<Longrightarrow> length rest \<le> length s"
  by (auto simp: parseSimple_def rejectedAt_def
      dest: parseName_length parseAttribute_length split: if_splits)

function parseCompound :: "string \<Rightarrow> simple list parsed" where
  "parseCompound [] = Parsed []"
| "parseCompound (c # s) =
     (case parseSimple c s of
        Parsed (x, rest) \<Rightarrow>
          (case parseCompound rest of
             Parsed xs \<Rightarrow> Parsed (x # xs)
           | Invalid \<Rightarrow> Invalid
           | Unmodelled \<Rightarrow> Unmodelled)
      | Invalid \<Rightarrow> Invalid
      | Unmodelled \<Rightarrow> Unmodelled)"
  by pat_completeness auto
termination
  by (relation "measure length") (auto dest: parseSimple_length)

text \<open>The whole selector text: it is not empty, and a type selector or \<open>*\<close> comes first.\<close>

definition parseSelector :: "string \<Rightarrow> simple list parsed" where
  "parseSelector text =
     (case text of
        [] \<Rightarrow> Invalid
      | c # s \<Rightarrow>
          if c = CHR ''*'' then
            (case parseCompound s of
               Parsed xs \<Rightarrow> Parsed (Universal # xs)
             | Invalid \<Rightarrow> Invalid
             | Unmodelled \<Rightarrow> Unmodelled)
          else if identChar c \<and> \<not> isDigit c then
            (let n = takeWhile identChar text; rest = dropWhile identChar text in
             if startsWith rest [CHR 0x5C] then Unmodelled
             else if validIdent n then
               (case parseCompound rest of
                  Parsed xs \<Rightarrow> Parsed (TypeSel n # xs)
                | Invalid \<Rightarrow> Invalid
                | Unmodelled \<Rightarrow> Unmodelled)
             else Invalid)
          else parseCompound text)"

text \<open>
  Matching on an HTML element of an HTML document: a type selector is lower-cased and
  compared with the local name, an attribute name is lower-cased, class names and attribute
  values compare exactly (the legacy attributes whose values HTML compares without case
  are not modelled), and \<open>[a*=""]\<close> matches nothing.
\<close>

fun matchesSimple :: "simple \<Rightarrow> node \<Rightarrow> bool" where
  "matchesSimple (TypeSel t) n = (localName n = toLowerCase t)"
| "matchesSimple Universal n = True"
| "matchesSimple (ClassSel c) n = (c \<in> set (classList n))"
| "matchesSimple (IdSel i) n = (getAttribute n ''id'' = Some i)"
| "matchesSimple (AttrExists a) n = (getAttribute n a \<noteq> None)"
| "matchesSimple (AttrEquals a v) n = (getAttribute n a = Some v)"
| "matchesSimple (AttrContains a v) n =
     (case getAttribute n a of None \<Rightarrow> False | Some x \<Rightarrow> v \<noteq> [] \<and> stringIncludes x v)"

definition matchesSelector :: "simple list \<Rightarrow> node \<Rightarrow> bool" where
  "matchesSelector sel n = list_all (\<lambda>x. matchesSimple x n) sel"

text \<open>\<open>SyntaxError\<close> is the exception of the engine; \<open>NotModelled\<close> marks a selector text outside
  the fragment, where the model does not say what the engine does. \<open>selectFrom\<close> is the query
  over a list of candidate elements.\<close>

datatype error = SyntaxError | NotModelled

definition selectFrom :: "(path \<times> node) list \<Rightarrow> string \<Rightarrow> error + path list" where
  "selectFrom candidates text =
     (case parseSelector text of
        Parsed sel \<Rightarrow> Inr (map fst (filter (\<lambda>(p, n). matchesSelector sel n) candidates))
      | Invalid \<Rightarrow> Inl SyntaxError
      | Unmodelled \<Rightarrow> Inl NotModelled)"

text \<open>
  \<open>document.querySelectorAll(text)\<close> ranges over every element of the document;
  \<open>node.querySelectorAll(text)\<close> over the descendants of \<open>node\<close>, \<open>node\<close> itself left out.
  Both give the paths of the matching elements in tree order.
\<close>

definition documentQuerySelectorAll :: "node \<Rightarrow> string \<Rightarrow> error + path list" where
  "documentQuerySelectorAll doc text = selectFrom (elements doc) text"

definition querySelectorAll :: "node \<Rightarrow> string \<Rightarrow> error + path list" where
  "querySelectorAll node text = selectFrom (elementsFrom 0 (childNodes node)) text"

section \<open>The content script\<close>

text \<open>
  A rule of the configured list \<open>hideRules\<close>: an object with a \<open>type\<close> tag and the string
  fields its kind reads. The list itself is a parameter of every function that reads it.
\<close>

record rule =
  type :: string
  "value" :: string
  selector :: string
  attr :: string

text \<open>
  A function that can raise returns \<open>Inl (e, t)\<close>, with the tree \<open>t\<close> as the exception
  leaves it, or \<open>Inr t\<close>, the tree after a normal return.
\<close>

type_synonym outcome = "(error \<times> node) + node"

text \<open>\<open>element.style.display = 'none'\<close>; the script reaches it with elements only.\<close>

fun hideElement :: "node \<Rightarrow> node" where
  "hideElement (Element l a d cs) = Element l a ''none'' cs"
| "hideElement n = n"

text \<open>\<open>list.forEach(f)\<close> over the nodes a query returned.\<close>

definition forEachNode :: "path list \<Rightarrow> (node \<Rightarrow> node) \<Rightarrow> node \<Rightarrow> node" where
  "forEachNode found f root = fold (\<lambda>p. updateAt p f) found root"

definition hideByClass :: "string \<Rightarrow> node \<Rightarrow> outcome" where
  "hideByClass className doc =
     (case documentQuerySelectorAll doc (CHR ''.'' # className) of
        Inl e \<Rightarrow> Inl (e, doc)
      | Inr found \<Rightarrow> Inr (forEachNode found hideElement doc))"

definition hrefSelector :: "string \<Rightarrow> string" where
  "hrefSelector keyword = ''a[href*='' @ [CHR 0x22] @ keyword @ [CHR 0x22] @ '']''"

definition hideByHref :: "string \<Rightarrow> node \<Rightarrow> outcome" where
  "hideByHref keyword doc =
     (case documentQuerySelectorAll doc (hrefSelector keyword) of
        Inl e \<Rightarrow> Inl (e, doc)
      | Inr found \<Rightarrow> Inr (forEachNode found hideElement doc))"

definition hideIfText :: "string \<Rightarrow> node \<Rightarrow> node" where
  "hideIfText keyword el =
     (if textContent el \<noteq> [] \<and> stringIncludes (toLowerCase (textContent el)) (toLowerCase keyword)
      then hideElement el else el)"

definition hideByContent :: "string \<Rightarrow> string \<Rightarrow> node \<Rightarrow> outcome" where
  "hideByContent sel keyword doc =
     (case documentQuerySelectorAll doc sel of
        Inl e \<Rightarrow> Inl (e, doc)
      | Inr found \<Rightarrow> Inr (forEachNode found (hideIfText keyword) doc))"

definition hideIfTitle :: "string \<Rightarrow> node \<Rightarrow> node" where
  "hideIfTitle keyword el =
     (if title el \<noteq> [] \<and> stringIncludes (toLowerCase (title el)) (toLowerCase keyword)
      then hideElement el else el)"

definition hideByTitle :: "string \<Rightarrow> string \<Rightarrow> node \<Rightarrow> outcome" where
  "hideByTitle sel keyword doc =
     (case documentQuerySelectorAll doc sel of
        Inl e \<Rightarrow> Inl (e, doc)
      | Inr found \<Rightarrow> Inr (forEachNode found (hideIfTitle keyword) doc))"

definition attributeSelector :: "string \<Rightarrow> string \<Rightarrow> string" where
  "attributeSelector a v = ''['' @ a @ ''='' @ [CHR 0x22] @ v @ [CHR 0x22] @ '']''"

definition hideByAttribute :: "string \<Rightarrow> string \<Rightarrow> node \<Rightarrow> outcome" where
  "hideByAttribute a v doc =
     (case documentQuerySelectorAll doc (attributeSelector a v) of
        Inl e \<Rightarrow> Inl (e, doc)
      | Inr found \<Rightarrow> Inr (forEachNode found hideElement doc))"

definition applyHideRule :: "rule \<Rightarrow> node \<Rightarrow> outcome" where
  "applyHideRule r doc =
     (if type r = ''class'' then hideByClass (value r) doc
      else if type r = ''href'' then hideByHref (value r) doc
      else if type r = ''content'' then hideByContent (selector r) (value r) doc
      else if type r = ''title'' then hideByTitle (selector r) (value r) doc
      else if type r = ''attribute'' then hideByAttribute (attr r) (value r) doc
      else Inr doc)"

text \<open>
  \<open>matchesRule\<close> returns a string where \<open>node.textContent\<close> or \<open>node.title\<close> is empty;
  \<open>some\<close> reads it as false, and so does the model.
\<close>

definition matchesRule :: "resolver \<Rightarrow> node \<Rightarrow> rule \<Rightarrow> bool" where
  "matchesRule resolveURL node r =
     (if type r = ''class'' then value r \<in> set (classList node)
      else if type r = ''href'' then
        tagName node = ''A'' \<and> stringIncludes (href resolveURL node) (value r)
      else if type r = ''content'' then
        toUpperCase (tagName node) = toUpperCase (selector r) \<and> textContent node \<noteq> [] \<and>
        stringIncludes (toLowerCase (textContent node)) (toLowerCase (value r))
      else if type r = ''title'' then
        toUpperCase (tagName node) = toUpperCase (selector r) \<and> title node \<noteq> [] \<and>
        stringIncludes (toLowerCase (title node)) (toLowerCase (value r))
      else if type r = ''attribute'' then getAttribute node (attr r) = Some (value r)
      else False)"

definition shouldHideNode :: "resolver \<Rightarrow> rule list \<Rightarrow> node \<Rightarrow> bool" where
  "shouldHideNode resolveURL hideRules node = list_ex (matchesRule resolveURL node) hideRules"

text \<open>The body of the loop over the rules in \<open>hideElementsInNode\<close>: one rule, the
  descendants of \<open>node\<close>.\<close>

definition hideDescendants :: "rule \<Rightarrow> node \<Rightarrow> outcome" where
  "hideDescendants r node =
     (if type r = ''class'' then
        (case querySelectorAll node (CHR ''.'' # value r) of
           Inl e \<Rightarrow> Inl (e, node)
         | Inr descendants \<Rightarrow> Inr (forEachNode descendants hideElement node))
      else if type r = ''href'' then
        (case querySelectorAll node (hrefSelector (value r)) of
           Inl e \<Rightarrow> Inl (e, node)
         | Inr linkDescendants \<Rightarrow> Inr (forEachNode linkDescendants hideElement node))
      else if type r = ''content'' then
        (case querySelectorAll node (selector r) of
           Inl e \<Rightarrow> Inl (e, node)
         | Inr contentDescendants \<Rightarrow> Inr (forEachNode contentDescendants (hideIfText (value r)) node))
      else if type r = ''title'' then
        (case querySelectorAll node (selector r) of
           Inl e \<Rightarrow> Inl (e, node)
         | Inr titleDescendants \<Rightarrow> Inr (forEachNode titleDescendants (hideIfTitle (value r)) node))
      else if type r = ''attribute'' then
        (case querySelectorAll node (attributeSelector (attr r) (value r)) of
           Inl e \<Rightarrow> Inl (e, node)
         | Inr attrDescendants \<Rightarrow> Inr (forEachNode attrDescendants hideElement node))
      else Inr node)"

text \<open>\<open>hideRules.forEach(f)\<close>: an exception in \<open>f\<close> ends the loop.\<close>

fun forEachRule :: "(rule \<Rightarrow> node \<Rightarrow> outcome) \<Rightarrow> rule list \<Rightarrow> node \<Rightarrow> outcome" where
  "forEachRule f [] t = Inr t"
| "forEachRule f (r # rs) t =
     (case f r t of Inl e \<Rightarrow> Inl e | Inr t' \<Rightarrow> forEachRule f rs t')"

definition hideElementsInNode :: "resolver \<Rightarrow> rule list \<Rightarrow> node \<Rightarrow> outcome" where
  "hideElementsInNode resolveURL hideRules node =
     forEachRule hideDescendants hideRules
       (if shouldHideNode resolveURL hideRules node then hideElement node else node)"

definition hideAllElements :: "rule list \<Rightarrow> node \<Rightarrow> outcome" where
  "hideAllElements hideRules doc = forEachRule applyHideRule hideRules doc"

text \<open>
  A mutation record names its added nodes by their paths in the document; its \<open>type\<close> is
  the field \<open>mutationType\<close> here, the name \<open>type\<close> being taken by the rules. A path that
  leads to no node stands for a node that has left the document before the callback runs:
  what the callback does to it does not show in the document.
\<close>

record mutationRecord =
  mutationType :: string
  addedNodes :: "path list"

fun forEachAdded :: "resolver \<Rightarrow> rule list \<Rightarrow> path list \<Rightarrow> node \<Rightarrow> outcome" where
  "forEachAdded resolveURL hideRules [] doc = Inr doc"
| "forEachAdded resolveURL hideRules (p # ps) doc =
     (case nodeAt doc p of
        None \<Rightarrow> forEachAdded resolveURL hideRules ps doc
      | Some node \<Rightarrow>
          if nodeType node = ELEMENT_NODE then
            (case hideElementsInNode resolveURL hideRules node of
               Inl (e, node') \<Rightarrow> Inl (e, updateAt p (\<lambda>n. node') doc)
             | Inr node' \<Rightarrow> forEachAdded resolveURL hideRules ps (updateAt p (\<lambda>n. node') doc))
          else forEachAdded resolveURL hideRules ps doc)"

fun observerCallback :: "resolver \<Rightarrow> rule list \<Rightarrow> mutationRecord list \<Rightarrow> node \<Rightarrow> outcome" where
  "observerCallback resolveURL hideRules [] doc = Inr doc"
| "observerCallback resolveURL hideRules (m # ms) doc =
     (if mutationType m = ''childList'' then
        (case forEachAdded resolveURL hideRules (addedNodes m) doc of
           Inl e \<Rightarrow> Inl e
         | Inr doc' \<Rightarrow> observerCallback resolveURL hideRules ms doc')
      else observerCallback resolveURL hideRules ms doc)"



text \<open>A node is hidden when its inline style says \<open>display: none\<close>.\<close>

definition hidden :: "node \<Rightarrow> bool" where
  "hidden n = (display n = ''none'')"

definition hiddenAt :: "node \<Rightarrow> path \<Rightarrow> bool" where
  "hiddenAt t p = (case nodeAt t p of None \<Rightarrow> False | Some n \<Rightarrow> hidden n)"

section \<open>What the loops compute\<close>

text \<open>
  The definitions of this section belong to the specification side: the tree with every
  element that satisfies a predicate hidden, the text a rule hands to \<open>querySelectorAll\<close>,
  the test it runs on each element found, and the order in which trees grow.
\<close>

text \<open>The tree with every element that satisfies \<open>P\<close> hidden, and the tree with every
  such element below the root hidden.\<close>

fun hideWhere :: "(node \<Rightarrow> bool) \<Rightarrow> node \<Rightarrow> node" where
  "hideWhere P (Element l a d cs) =
     Element l a (if P (Element l a d cs) then ''none'' else d) (map (hideWhere P) cs)"
| "hideWhere P n = n"

definition hideBelow :: "(node \<Rightarrow> bool) \<Rightarrow> node \<Rightarrow> node" where
  "hideBelow P n = (case n of Element l a d cs \<Rightarrow> Element l a d (map (hideWhere P) cs) | _ \<Rightarrow> n)"

text \<open>The paths of the listed elements that satisfy \<open>S\<close>.\<close>

definition pathsWhere :: "(node \<Rightarrow> bool) \<Rightarrow> (path \<times> node) list \<Rightarrow> path list" where
  "pathsWhere S xs = map fst (filter (\<lambda>(p, n). S n) xs)"

text \<open>The tree with every \<open>display\<close> cleared: what is left when visibility is set aside.\<close>

fun unstyled :: "node \<Rightarrow> node" where
  "unstyled (Element l a d cs) = Element l a [] (map unstyled cs)"
| "unstyled n = n"

text \<open>The second tree is the first one with more nodes hidden, and nothing else changed.\<close>

fun grows :: "node \<Rightarrow> node \<Rightarrow> bool" where
  "grows (Element l a d cs) (Element l' a' d' cs') =
     (l = l' \<and> a = a' \<and> (d = ''none'' \<longrightarrow> d' = ''none'') \<and> list_all2 grows cs cs')"
| "grows (Text s) (Text s') = (s = s')"
| "grows (Comment s) (Comment s') = (s = s')"
| "grows n n' = False"

text \<open>The tree an operation leaves, whether it returned or raised.\<close>

fun after :: "outcome \<Rightarrow> node" where
  "after (Inl (e, t)) = t"
| "after (Inr t) = t"

text \<open>The selector text a rule hands to \<open>querySelectorAll\<close>, the test it runs on each
  element found, the exception its query raises, and the elements it picks in the end.\<close>

definition ruleText :: "rule \<Rightarrow> string option" where
  "ruleText r =
     (if type r = ''class'' then Some (CHR ''.'' # value r)
      else if type r = ''href'' then Some (hrefSelector (value r))
      else if type r = ''content'' then Some (selector r)
      else if type r = ''title'' then Some (selector r)
      else if type r = ''attribute'' then Some (attributeSelector (attr r) (value r))
      else None)"

definition ruleFilter :: "rule \<Rightarrow> node \<Rightarrow> bool" where
  "ruleFilter r el =
     (if type r = ''content'' then
        textContent el \<noteq> [] \<and> stringIncludes (toLowerCase (textContent el)) (toLowerCase (value r))
      else if type r = ''title'' then
        title el \<noteq> [] \<and> stringIncludes (toLowerCase (title el)) (toLowerCase (value r))
      else True)"

definition ruleError :: "rule \<Rightarrow> error option" where
  "ruleError r =
     (case ruleText r of
        None \<Rightarrow> None
      | Some t \<Rightarrow>
          (case parseSelector t of
             Parsed sel \<Rightarrow> None
           | Invalid \<Rightarrow> Some SyntaxError
           | Unmodelled \<Rightarrow> Some NotModelled))"

definition picks :: "rule \<Rightarrow> node \<Rightarrow> bool" where
  "picks r n =
     (case ruleText r of
        None \<Rightarrow> False
      | Some t \<Rightarrow>
          (case parseSelector t of
             Parsed sel \<Rightarrow> matchesSelector sel n \<and> ruleFilter r n
           | Invalid \<Rightarrow> False
           | Unmodelled \<Rightarrow> False))"

text \<open>A reading of a node that does not depend on any \<open>display\<close>.\<close>

definition blind :: "(node \<Rightarrow> 'a) \<Rightarrow> bool" where
  "blind P = (\<forall>n. P (unstyled n) = P n)"

text \<open>A value that can stand between double quotes in a selector as it is.\<close>

definition safeValue :: "string \<Rightarrow> bool" where
  "safeValue v = (\<not> list_ex (\<lambda>x. x = CHR 0x22 \<or> x = CHR 0x5C \<or> x = CHR 0x0A \<or> x = CHR 0x0C \<or> x = CHR 0x0D) v)"

text \<open>Rule objects as the configuration writes them; a field the kind does not read is
  left empty.\<close>

definition classRule :: "string \<Rightarrow> rule" where
  "classRule v = \<lparr>type = ''class'', value = v, selector = [], attr = []\<rparr>"

definition hrefRule :: "string \<Rightarrow> rule" where
  "hrefRule v = \<lparr>type = ''href'', value = v, selector = [], attr = []\<rparr>"

definition contentRule :: "string \<Rightarrow> string \<Rightarrow> rule" where
  "contentRule s v = \<lparr>type = ''content'', value = v, selector = s, attr = []\<rparr>"




text \<open>
  A rule whose fields go into the selector text as they are meant: the class, the tag name
  or the attribute name is a CSS identifier, and the attribute value can stand between
  double quotes.
\<close>

definition plainRule :: "rule \<Rightarrow> bool" where
  "plainRule r =
     (if type r = ''class'' then isIdent (value r)
      else if type r = ''content'' \<or> type r = ''title'' then isIdent (selector r)
      else if type r = ''attribute'' then isIdent (attr r) \<and> safeValue (value r)
      else False)"

section \<open>Example pages and rule lists\<close>

text \<open>The pages and rule lists of the examples.\<close>

definition hiddenPage :: node where
  "hiddenPage = Element ''body'' [] []
     [Element ''div'' [(''class'', ''ad'')] ''none'' [Text ''x''],
      Element ''div'' [(''class'', ''BIG_BROTHER_BRASIL'')] [] [Text ''y'']]"


definition emptySpanPage :: node where
  "emptySpanPage = Element ''body'' [] []
     [Element ''span'' [(''title'', [])] [] [Comment ''no text''],
      Element ''span'' [(''title'', ''t'')] [] [Text ''x'']]"






definition linkPage :: node where
  "linkPage = Element ''body'' [] []
     [Element ''a'' [(''href'', ''/bbb/post'')] [] [Text ''text''],
      Element ''a'' [(''href'', ''https://site.com/other'')] [] [Text ''text'']]"

definition linkPageSecondHidden :: node where
  "linkPageSecondHidden = Element ''body'' [] []
     [Element ''a'' [(''href'', ''/bbb/post'')] [] [Text ''text''],
      Element ''a'' [(''href'', ''https://site.com/other'')] ''none'' [Text ''text'']]"







section \<open>The loops in closed form\<close>

lemma pathsWhere_shift:
  "pathsWhere S (map (\<lambda>(p, n). (i # p, n)) xs) = map ((#) i) (pathsWhere S xs)"
  by (induction xs) (auto simp: pathsWhere_def)

lemma pathsWhere_append: "pathsWhere S (xs @ ys) = pathsWhere S xs @ pathsWhere S ys"
  by (simp add: pathsWhere_def)

lemma fold_child:
  "i < length cs \<Longrightarrow>
   fold (\<lambda>p. updateAt p f) (map ((#) i) ps) (Element l a d cs) =
   Element l a d (cs[i := fold (\<lambda>p. updateAt p f) ps (cs ! i)])"
proof (induction ps arbitrary: cs)
  case Nil
  then show ?case by simp
next
  case (Cons p ps)
  let ?cs = "cs[i := updateAt p f (cs ! i)]"
  have "fold (\<lambda>p. updateAt p f) (map ((#) i) (p # ps)) (Element l a d cs) =
        fold (\<lambda>p. updateAt p f) (map ((#) i) ps) (Element l a d ?cs)"
    using Cons.prems by simp
  also have "\<dots> = Element l a d (?cs[i := fold (\<lambda>p. updateAt p f) ps (?cs ! i)])"
    using Cons.prems by (intro Cons.IH) simp
  finally show ?case using Cons.prems by simp
qed

lemma fold_from:
  assumes "\<And>c. c \<in> set cs \<Longrightarrow> fold (\<lambda>p. updateAt p f) (pathsWhere S (elements c)) c = hideWhere Q c"
  shows "fold (\<lambda>p. updateAt p f) (pathsWhere S (elementsFrom (length pre) cs)) (Element l a d (pre @ cs)) =
         Element l a d (pre @ map (hideWhere Q) cs)"
  using assms
proof (induction cs arbitrary: pre)
  case Nil
  then show ?case by (simp add: pathsWhere_def)
next
  case (Cons c cs)
  have first: "fold (\<lambda>p. updateAt p f) (map ((#) (length pre)) (pathsWhere S (elements c))) (Element l a d (pre @ c # cs)) =
        Element l a d ((pre @ [hideWhere Q c]) @ cs)"
    using Cons.prems [of c] by (simp add: fold_child)
  have rest: "fold (\<lambda>p. updateAt p f) (pathsWhere S (elementsFrom (length (pre @ [hideWhere Q c])) cs))
          (Element l a d ((pre @ [hideWhere Q c]) @ cs)) =
        Element l a d ((pre @ [hideWhere Q c]) @ map (hideWhere Q) cs)"
    using Cons.prems by (intro Cons.IH) simp
  show ?case
    using first rest by (simp add: pathsWhere_append pathsWhere_shift)
qed

lemma fold_elements:
  assumes f: "\<And>n. f n = (if C n then hideElement n else n)"
  shows "fold (\<lambda>p. updateAt p f) (pathsWhere S (elements t)) t = hideWhere (\<lambda>n. S n \<and> C n) t"
proof (induction t)
  case (Element l a d cs)
  have below: "fold (\<lambda>p. updateAt p f) (pathsWhere S (elementsFrom (length ([]::node list)) cs)) (Element l a d' ([] @ cs)) =
         Element l a d' ([] @ map (hideWhere (\<lambda>n. S n \<and> C n)) cs)" for d'
    using Element.IH by (intro fold_from) simp
  have root: "f (Element l a d cs) =
      (if C (Element l a d cs) then Element l a ''none'' cs else Element l a d cs)"
    by (simp add: f)
  show ?case
    using below [of d] below [of "''none''"] by (simp add: pathsWhere_def root)
next
  case (Text s)
  then show ?case by (simp add: pathsWhere_def)
next
  case (Comment s)
  then show ?case by (simp add: pathsWhere_def)
qed

lemma fold_descendants:
  assumes f: "\<And>n. f n = (if C n then hideElement n else n)"
  shows "fold (\<lambda>p. updateAt p f) (pathsWhere S (elementsFrom 0 (childNodes t))) t = hideBelow (\<lambda>n. S n \<and> C n) t"
proof (cases t)
  case (Element l a d cs)
  have "fold (\<lambda>p. updateAt p f) (pathsWhere S (elementsFrom (length ([]::node list)) cs)) (Element l a d ([] @ cs)) =
         Element l a d ([] @ map (hideWhere (\<lambda>n. S n \<and> C n)) cs)"
    using fold_elements [OF f] by (intro fold_from) simp
  then show ?thesis using Element by (simp add: hideBelow_def)
qed (simp_all add: hideBelow_def pathsWhere_def)


lemma hideWhere_False: "hideWhere (\<lambda>n. False) t = t"
  by (induction t) (auto simp: map_idI)

lemma hideBelow_False: "hideBelow (\<lambda>n. False) t = t"
  by (cases t) (auto simp: hideBelow_def hideWhere_False map_idI)


lemma forEachNode_document:
  assumes "\<And>n. f n = (if C n then hideElement n else n)"
  shows "forEachNode (map fst (filter (\<lambda>(p, n). S n) (elements t))) f t = hideWhere (\<lambda>n. S n \<and> C n) t"
  using fold_elements [of f C S t] assms by (simp add: forEachNode_def pathsWhere_def)

lemma forEachNode_descendants:
  assumes "\<And>n. f n = (if C n then hideElement n else n)"
  shows "forEachNode (map fst (filter (\<lambda>(p, n). S n) (elementsFrom 0 (childNodes t)))) f t =
         hideBelow (\<lambda>n. S n \<and> C n) t"
  using fold_descendants [of f C S t] assms by (simp add: forEachNode_def pathsWhere_def)

lemma query_document:
  assumes "\<And>n. f n = (if C n then hideElement n else n)"
  shows "(case documentQuerySelectorAll doc t of
            Inl e \<Rightarrow> Inl (e, doc)
          | Inr found \<Rightarrow> Inr (forEachNode found f doc)) =
         (case parseSelector t of
            Parsed sel \<Rightarrow> Inr (hideWhere (\<lambda>n. matchesSelector sel n \<and> C n) doc)
          | Invalid \<Rightarrow> Inl (SyntaxError, doc)
          | Unmodelled \<Rightarrow> Inl (NotModelled, doc))"
  by (simp add: documentQuerySelectorAll_def selectFrom_def forEachNode_document [of f C, OF assms]
      split: parsed.splits)

lemma query_descendants:
  assumes "\<And>n. f n = (if C n then hideElement n else n)"
  shows "(case querySelectorAll node t of
            Inl e \<Rightarrow> Inl (e, node)
          | Inr found \<Rightarrow> Inr (forEachNode found f node)) =
         (case parseSelector t of
            Parsed sel \<Rightarrow> Inr (hideBelow (\<lambda>n. matchesSelector sel n \<and> C n) node)
          | Invalid \<Rightarrow> Inl (SyntaxError, node)
          | Unmodelled \<Rightarrow> Inl (NotModelled, node))"
  by (simp add: querySelectorAll_def selectFrom_def forEachNode_descendants [of f C, OF assms]
      split: parsed.splits)

lemma canon_result:
  assumes "ruleText r = Some t"
    and "\<And>n. f n = (if ruleFilter r n then hideElement n else n)"
  shows "(case documentQuerySelectorAll doc t of
            Inl e \<Rightarrow> Inl (e, doc)
          | Inr found \<Rightarrow> Inr (forEachNode found f doc)) =
         (case ruleError r of Some e \<Rightarrow> Inl (e, doc) | None \<Rightarrow> Inr (hideWhere (picks r) doc))"
    and "(case querySelectorAll node t of
            Inl e \<Rightarrow> Inl (e, node)
          | Inr found \<Rightarrow> Inr (forEachNode found f node)) =
         (case ruleError r of Some e \<Rightarrow> Inl (e, node) | None \<Rightarrow> Inr (hideBelow (picks r) node))"
proof -
  have p: "parseSelector t = Parsed sel \<Longrightarrow> picks r = (\<lambda>n. matchesSelector sel n \<and> ruleFilter r n)" for sel
    using assms(1) by (simp add: picks_def fun_eq_iff)
  show "(case documentQuerySelectorAll doc t of
            Inl e \<Rightarrow> Inl (e, doc)
          | Inr found \<Rightarrow> Inr (forEachNode found f doc)) =
         (case ruleError r of Some e \<Rightarrow> Inl (e, doc) | None \<Rightarrow> Inr (hideWhere (picks r) doc))"
    unfolding query_document [of f "ruleFilter r", OF assms(2)]
    using assms(1) p by (simp add: ruleError_def split: parsed.splits)
  show "(case querySelectorAll node t of
            Inl e \<Rightarrow> Inl (e, node)
          | Inr found \<Rightarrow> Inr (forEachNode found f node)) =
         (case ruleError r of Some e \<Rightarrow> Inl (e, node) | None \<Rightarrow> Inr (hideBelow (picks r) node))"
    unfolding query_descendants [of f "ruleFilter r", OF assms(2)]
    using assms(1) p by (simp add: ruleError_def split: parsed.splits)
qed

lemma unknown_type:
  assumes "type r \<noteq> ''class''" "type r \<noteq> ''href''" "type r \<noteq> ''content''"
    "type r \<noteq> ''title''" "type r \<noteq> ''attribute''"
  shows "ruleText r = None" and "ruleError r = None" and "picks r = (\<lambda>n. False)"
  using assms by (simp_all add: ruleText_def ruleError_def picks_def fun_eq_iff)

lemma applyHideRule_canon:
  "applyHideRule r doc =
     (case ruleError r of Some e \<Rightarrow> Inl (e, doc) | None \<Rightarrow> Inr (hideWhere (picks r) doc))"
proof -
  consider (cls) "type r = ''class''" | (href) "type r = ''href''" | (content) "type r = ''content''"
    | (title) "type r = ''title''" | (attribute) "type r = ''attribute''"
    | (other) "type r \<noteq> ''class''" "type r \<noteq> ''href''" "type r \<noteq> ''content''"
        "type r \<noteq> ''title''" "type r \<noteq> ''attribute''"
    by blast
  then show ?thesis
  proof cases
    case cls
    then have "ruleText r = Some (CHR ''.'' # value r)" "\<And>n. hideElement n = (if ruleFilter r n then hideElement n else n)"
      by (simp_all add: ruleText_def ruleFilter_def)
    from canon_result(1) [OF this] show ?thesis
      using cls by (simp add: applyHideRule_def hideByClass_def)
  next
    case href
    then have "ruleText r = Some (hrefSelector (value r))" "\<And>n. hideElement n = (if ruleFilter r n then hideElement n else n)"
      by (simp_all add: ruleText_def ruleFilter_def)
    from canon_result(1) [OF this] show ?thesis
      using href by (simp add: applyHideRule_def hideByHref_def)
  next
    case content
    then have "ruleText r = Some (selector r)" "\<And>n. hideIfText (value r) n = (if ruleFilter r n then hideElement n else n)"
      by (simp_all add: ruleText_def ruleFilter_def hideIfText_def)
    from canon_result(1) [OF this] show ?thesis
      using content by (simp add: applyHideRule_def hideByContent_def)
  next
    case title
    then have "ruleText r = Some (selector r)" "\<And>n. hideIfTitle (value r) n = (if ruleFilter r n then hideElement n else n)"
      by (simp_all add: ruleText_def ruleFilter_def hideIfTitle_def)
    from canon_result(1) [OF this] show ?thesis
      using title by (simp add: applyHideRule_def hideByTitle_def)
  next
    case attribute
    then have "ruleText r = Some (attributeSelector (attr r) (value r))" "\<And>n. hideElement n = (if ruleFilter r n then hideElement n else n)"
      by (simp_all add: ruleText_def ruleFilter_def)
    from canon_result(1) [OF this] show ?thesis
      using attribute by (simp add: applyHideRule_def hideByAttribute_def)
  next
    case other
    then show ?thesis
      by (simp add: applyHideRule_def unknown_type hideWhere_False)
  qed
qed

lemma hideDescendants_canon:
  "hideDescendants r node =
     (case ruleError r of Some e \<Rightarrow> Inl (e, node) | None \<Rightarrow> Inr (hideBelow (picks r) node))"
proof -
  consider (cls) "type r = ''class''" | (href) "type r = ''href''" | (content) "type r = ''content''"
    | (title) "type r = ''title''" | (attribute) "type r = ''attribute''"
    | (other) "type r \<noteq> ''class''" "type r \<noteq> ''href''" "type r \<noteq> ''content''"
        "type r \<noteq> ''title''" "type r \<noteq> ''attribute''"
    by blast
  then show ?thesis
  proof cases
    case cls
    then have "ruleText r = Some (CHR ''.'' # value r)" "\<And>n. hideElement n = (if ruleFilter r n then hideElement n else n)"
      by (simp_all add: ruleText_def ruleFilter_def)
    from canon_result(2) [OF this] show ?thesis
      using cls by (simp add: hideDescendants_def)
  next
    case href
    then have "ruleText r = Some (hrefSelector (value r))" "\<And>n. hideElement n = (if ruleFilter r n then hideElement n else n)"
      by (simp_all add: ruleText_def ruleFilter_def)
    from canon_result(2) [OF this] show ?thesis
      using href by (simp add: hideDescendants_def)
  next
    case content
    then have "ruleText r = Some (selector r)" "\<And>n. hideIfText (value r) n = (if ruleFilter r n then hideElement n else n)"
      by (simp_all add: ruleText_def ruleFilter_def hideIfText_def)
    from canon_result(2) [OF this] show ?thesis
      using content by (simp add: hideDescendants_def)
  next
    case title
    then have "ruleText r = Some (selector r)" "\<And>n. hideIfTitle (value r) n = (if ruleFilter r n then hideElement n else n)"
      by (simp_all add: ruleText_def ruleFilter_def hideIfTitle_def)
    from canon_result(2) [OF this] show ?thesis
      using title by (simp add: hideDescendants_def)
  next
    case attribute
    then have "ruleText r = Some (attributeSelector (attr r) (value r))" "\<And>n. hideElement n = (if ruleFilter r n then hideElement n else n)"
      by (simp_all add: ruleText_def ruleFilter_def)
    from canon_result(2) [OF this] show ?thesis
      using attribute by (simp add: hideDescendants_def)
  next
    case other
    then show ?thesis
      by (simp add: hideDescendants_def unknown_type hideBelow_False)
  qed
qed

lemma localName_unstyled [simp]: "localName (unstyled n) = localName n"
  by (cases n) auto

lemma attributes_unstyled [simp]: "attributes (unstyled n) = attributes n"
  by (cases n) auto

lemma nodeType_unstyled [simp]: "nodeType (unstyled n) = nodeType n"
  by (cases n) auto

lemma descendantText_unstyled: "descendantText (unstyled n) = descendantText n"
  by (induction n) (auto intro: arg_cong [where f = concat])

lemma textContent_unstyled [simp]: "textContent (unstyled n) = textContent n"
  using descendantText_unstyled [of n] by (cases n) simp_all

lemma blind_readers:
  "blind localName" "blind attributes" "blind nodeType" "blind textContent" "blind tagName"
  "blind (\<lambda>n. getAttribute n a)" "blind classList" "blind title" "blind (href res)"
  by (simp_all add: blind_def tagName_def getAttribute_def classList_def title_def href_def)

lemma getAttribute_unstyled [simp]: "getAttribute (unstyled n) a = getAttribute n a"
  by (simp add: getAttribute_def)

lemma classList_unstyled [simp]: "classList (unstyled n) = classList n"
  by (simp add: classList_def)

lemma matchesSimple_unstyled [simp]: "matchesSimple x (unstyled n) = matchesSimple x n"
  by (cases x) simp_all

lemma blind_matchesSelector: "blind (matchesSelector sel)"
  by (simp add: blind_def matchesSelector_def)

lemma blind_picks: "blind (picks r)"
  using blind_matchesSelector
  by (auto simp: blind_def picks_def ruleFilter_def title_def getAttribute_def
      split: option.splits parsed.splits)



lemma unstyled_hideWhere [simp]: "unstyled (hideWhere P t) = unstyled t"
  by (induction t) auto

lemma unstyled_hideElement [simp]: "unstyled (hideElement n) = unstyled n"
  by (cases n) auto

lemma unstyled_hideBelow [simp]: "unstyled (hideBelow P t) = unstyled t"
  by (cases t) (auto simp: hideBelow_def)

lemma blind_apply: "blind P \<Longrightarrow> unstyled n = unstyled m \<Longrightarrow> P n = P m"
  by (metis blind_def)

lemma blind_hideWhere: "blind P \<Longrightarrow> P (hideWhere Q n) = P n"
  by (rule blind_apply) simp_all

lemma hideWhere_twice:
  assumes "blind P"
  shows "hideWhere P (hideWhere Q t) = hideWhere (\<lambda>n. Q n \<or> P n) t"
proof (induction t)
  case (Element l a d cs)
  have "P (hideWhere Q (Element l a d cs)) = P (Element l a d cs)"
    using assms by (rule blind_hideWhere)
  then show ?case using Element.IH by auto
qed simp_all


lemma blind_any: "blind (\<lambda>n. list_ex (\<lambda>r. picks r n) rs)"
  using blind_picks by (simp add: blind_def list_ex_iff)

lemma forEachRule_document:
  "forEachRule applyHideRule rs doc =
     (if list_all (\<lambda>r. ruleError r = None) rs
      then Inr (hideWhere (\<lambda>n. list_ex (\<lambda>r. picks r n) rs) doc)
      else Inl (the (ruleError (hd (dropWhile (\<lambda>r. ruleError r = None) rs))),
                hideWhere (\<lambda>n. list_ex (\<lambda>r. picks r n) (takeWhile (\<lambda>r. ruleError r = None) rs)) doc))"
proof (induction rs arbitrary: doc)
  case Nil
  then show ?case by (simp add: hideWhere_False)
next
  case (Cons r rs)
  show ?case
  proof (cases "ruleError r")
    case None
    have step: "hideWhere (\<lambda>n. list_ex (\<lambda>r. picks r n) xs) (hideWhere (picks r) doc) =
          hideWhere (\<lambda>n. list_ex (\<lambda>r. picks r n) (r # xs)) doc" for xs
      by (simp add: hideWhere_twice [OF blind_any])
    show ?thesis
      using None by (simp add: applyHideRule_canon [of r doc] Cons.IH step del: list_ex_Cons_iff)
  next
    case (Some e)
    then show ?thesis by (simp add: applyHideRule_canon [of r doc] hideWhere_False)
  qed
qed


section \<open>Trees only grow\<close>

lemma grows_refl: "grows t t"
proof (induction t)
  case (Element l a d cs)
  then have "list_all2 grows cs cs"
    by (simp add: list_all2_same)
  then show ?case by simp
qed simp_all

lemma grows_children: "list_all2 grows cs cs"
  by (simp add: list_all2_same grows_refl)

lemma grows_trans: "grows a b \<Longrightarrow> grows b c \<Longrightarrow> grows a c"
proof (induction a arbitrary: b c)
  case (Element l at d cs)
  then obtain d' cs' where b: "b = Element l at d' cs'"
    by (cases b) auto
  with Element.prems obtain d'' cs'' where c: "c = Element l at d'' cs''"
    by (cases c) auto
  have 1: "list_all2 grows cs cs'" and 2: "list_all2 grows cs' cs''"
    using Element.prems b c by auto
  have "list_all2 grows cs cs''"
    unfolding list_all2_conv_all_nth
  proof (intro conjI allI impI)
    show "length cs = length cs''"
      using 1 2 by (simp add: list_all2_lengthD)
    fix i assume i: "i < length cs"
    have "grows (cs ! i) (cs' ! i)" "grows (cs' ! i) (cs'' ! i)"
      using 1 2 i by (simp_all add: list_all2_conv_all_nth)
    then show "grows (cs ! i) (cs'' ! i)"
      using Element.IH [of "cs ! i"] i by simp
  qed
  then show ?case using Element.prems b c by auto
next
  case (Text s)
  then show ?case by (cases b; cases c) auto
next
  case (Comment s)
  then show ?case by (cases b; cases c) auto
qed

lemma grows_nodeAt:
  "grows t t' \<Longrightarrow> nodeAt t p = Some n \<Longrightarrow> \<exists>n'. nodeAt t' p = Some n' \<and> grows n n'"
proof (induction p arbitrary: t t')
  case Nil
  then show ?case by simp
next
  case (Cons i p)
  then obtain l a d cs where t: "t = Element l a d cs"
    by (cases t) auto
  with Cons.prems obtain d' cs' where t': "t' = Element l a d' cs'"
    by (cases t') auto
  have all: "list_all2 grows cs cs'"
    using Cons.prems t t' by simp
  have i: "i < length cs" and at: "nodeAt (cs ! i) p = Some n"
    using Cons.prems t by (auto split: if_splits)
  have "grows (cs ! i) (cs' ! i)" "i < length cs'"
    using all i by (simp_all add: list_all2_conv_all_nth)
  then show ?case
    using Cons.IH [OF _ at] t' by simp
qed

lemma grows_nodeAt_None:
  "grows t t' \<Longrightarrow> nodeAt t p = None \<Longrightarrow> nodeAt t' p = None"
proof (induction p arbitrary: t t')
  case Nil
  then show ?case by simp
next
  case (Cons i p)
  show ?case
  proof (cases t)
    case (Element l a d cs)
    with Cons.prems obtain d' cs' where t': "t' = Element l a d' cs'"
      by (cases t') auto
    have all: "list_all2 grows cs cs'"
      using Cons.prems Element t' by simp
    then have len: "length cs' = length cs"
      by (simp add: list_all2_lengthD)
    show ?thesis
    proof (cases "i < length cs")
      case True
      then have "grows (cs ! i) (cs' ! i)"
        using all by (simp add: list_all2_conv_all_nth)
      moreover have "nodeAt (cs ! i) p = None"
        using Cons.prems Element True by simp
      ultimately show ?thesis
        using Cons.IH t' len True by simp
    next
      case False
      then show ?thesis using t' len by simp
    qed
  next
    case (Text s)
    with Cons.prems show ?thesis by (cases t') auto
  next
    case (Comment s)
    with Cons.prems show ?thesis by (cases t') auto
  qed
qed

lemma grows_hidden: "grows n n' \<Longrightarrow> hidden n \<Longrightarrow> hidden n'"
  by (cases n; cases n') (auto simp: hidden_def)

lemma grows_hiddenAt: "grows t t' \<Longrightarrow> hiddenAt t p \<Longrightarrow> hiddenAt t' p"
proof -
  assume g: "grows t t'" and h: "hiddenAt t p"
  from h obtain n where n: "nodeAt t p = Some n" and hn: "hidden n"
    by (cases "nodeAt t p") (simp_all add: hiddenAt_def)
  from grows_nodeAt [OF g n] obtain n' where n': "nodeAt t' p = Some n'" and gn: "grows n n'"
    by blast
  from grows_hidden [OF gn hn] n' show ?thesis
    by (simp add: hiddenAt_def)
qed


lemma grows_hideWhere: "grows t (hideWhere P t)"
proof (induction t)
  case (Element l a d cs)
  then have "list_all2 grows cs (map (hideWhere P) cs)"
    by (simp add: list_all2_map2 list_all2_same)
  then show ?case by simp
qed simp_all

lemma grows_hideElement: "grows n (hideElement n)"
  by (cases n) (simp_all add: grows_children)

lemma grows_hideBelow: "grows t (hideBelow P t)"
proof (cases t)
  case (Element l a d cs)
  have "list_all2 grows cs (map (hideWhere P) cs)"
    by (simp add: list_all2_map2 list_all2_same grows_hideWhere)
  then show ?thesis using Element by (simp add: hideBelow_def)
qed (simp_all add: hideBelow_def)

lemma grows_updateAt:
  "nodeAt t p = Some n \<Longrightarrow> grows n n' \<Longrightarrow> grows t (updateAt p (\<lambda>x. n') t)"
proof (induction p arbitrary: t)
  case Nil
  then show ?case by simp
next
  case (Cons i p)
  then obtain l a d cs where t: "t = Element l a d cs"
    by (cases t) auto
  have i: "i < length cs" and at: "nodeAt (cs ! i) p = Some n"
    using Cons.prems t by (auto split: if_splits)
  have "grows (cs ! i) (updateAt p (\<lambda>x. n') (cs ! i))"
    using Cons.IH [OF at Cons.prems(2)] .
  then have "list_all2 grows cs (cs[i := updateAt p (\<lambda>x. n') (cs ! i)])"
    using i by (simp add: list_all2_conv_all_nth nth_list_update grows_refl)
  then show ?case using t i by simp
qed

lemma nodeAt_append:
  "nodeAt t p = Some n \<Longrightarrow> nodeAt t (p @ q) = nodeAt n q"
proof (induction p arbitrary: t)
  case Nil
  then show ?case by simp
next
  case (Cons i p)
  then show ?case by (cases t) (auto split: if_splits)
qed


lemma nodeAt_hideWhere: "nodeAt (hideWhere P t) p = map_option (hideWhere P) (nodeAt t p)"
proof (induction p arbitrary: t)
  case Nil
  then show ?case by simp
next
  case (Cons i p)
  then show ?case by (cases t) auto
qed

lemma nodeAt_hideBelow:
  "p \<noteq> [] \<Longrightarrow> nodeAt (hideBelow P t) p = map_option (hideWhere P) (nodeAt t p)"
  by (cases p; cases t) (auto simp: hideBelow_def nodeAt_hideWhere)

lemma hidden_hideWhere:
  "hidden (hideWhere P n) = (hidden n \<or> (nodeType n = ELEMENT_NODE \<and> P n))"
  by (cases n) (auto simp: hidden_def ELEMENT_NODE_def)

lemma hiddenAt_hideWhere:
  "hiddenAt (hideWhere P t) p =
     (case nodeAt t p of None \<Rightarrow> False | Some n \<Rightarrow> hidden n \<or> (nodeType n = ELEMENT_NODE \<and> P n))"
  by (simp add: hiddenAt_def nodeAt_hideWhere hidden_hideWhere split: option.splits)

lemma grows_forEachRule:
  assumes "\<And>r t. grows t (after (f r t))"
  shows "grows t (after (forEachRule f rs t))"
proof (induction rs arbitrary: t)
  case Nil
  then show ?case by (simp add: grows_refl)
next
  case (Cons r rs)
  show ?case
  proof (cases "f r t")
    case (Inl e)
    then show ?thesis using assms [of t r] by simp
  next
    case (Inr t')
    then have "grows t t'" using assms [of t r] by simp
    from grows_trans [OF this Cons.IH [of t']] show ?thesis using Inr by simp
  qed
qed

lemma grows_applyHideRule: "grows t (after (applyHideRule r t))"
  by (simp add: applyHideRule_canon grows_refl grows_hideWhere split: option.splits)

lemma grows_hideDescendants: "grows t (after (hideDescendants r t))"
  by (simp add: hideDescendants_canon grows_refl grows_hideBelow split: option.splits)

lemma grows_hideAllElements: "grows doc (after (hideAllElements rs doc))"
  unfolding hideAllElements_def by (rule grows_forEachRule) (rule grows_applyHideRule)

lemma grows_hideElementsInNode: "grows n (after (hideElementsInNode res rs n))"
proof -
  let ?n = "if shouldHideNode res rs n then hideElement n else n"
  have "grows n ?n" by (simp add: grows_refl grows_hideElement)
  moreover have "grows ?n (after (forEachRule hideDescendants rs ?n))"
    by (rule grows_forEachRule) (rule grows_hideDescendants)
  ultimately show ?thesis
    unfolding hideElementsInNode_def by (rule grows_trans)
qed

lemma grows_forEachAdded: "grows doc (after (forEachAdded res rs ps doc))"
proof (induction ps arbitrary: doc)
  case Nil
  then show ?case by (simp add: grows_refl)
next
  case (Cons p ps)
  show ?case
  proof (cases "nodeAt doc p")
    case None
    then show ?thesis using Cons.IH by simp
  next
    case (Some n)
    show ?thesis
    proof (cases "nodeType n = ELEMENT_NODE")
      case False
      then show ?thesis using Some Cons.IH by simp
    next
      case True
      have g: "grows n (after (hideElementsInNode res rs n))"
        by (rule grows_hideElementsInNode)
      show ?thesis
      proof (cases "hideElementsInNode res rs n")
        case (Inl en)
        obtain e n' where en: "en = (e, n')" by (cases en)
        have "grows doc (updateAt p (\<lambda>x. n') doc)"
          using g Inl en Some by (intro grows_updateAt) simp_all
        then show ?thesis using Some True Inl en by simp
      next
        case (Inr n')
        have "grows doc (updateAt p (\<lambda>x. n') doc)"
          using g Inr Some by (intro grows_updateAt) simp_all
        from grows_trans [OF this Cons.IH [of "updateAt p (\<lambda>x. n') doc"]]
        show ?thesis
          using Some True Inr by simp
      qed
    qed
  qed
qed

lemma grows_observerCallback: "grows doc (after (observerCallback res rs ms doc))"
proof (induction ms arbitrary: doc)
  case Nil
  then show ?case by (simp add: grows_refl)
next
  case (Cons m ms)
  show ?case
  proof (cases "mutationType m = ''childList''")
    case False
    then show ?thesis using Cons.IH by simp
  next
    case True
    have g: "grows doc (after (forEachAdded res rs (addedNodes m) doc))"
      by (rule grows_forEachAdded)
    show ?thesis
    proof (cases "forEachAdded res rs (addedNodes m) doc")
      case (Inl e)
      then show ?thesis using True g by simp
    next
      case (Inr doc')
      then have "grows doc doc'" using g by simp
      from grows_trans [OF this Cons.IH [of doc']] show ?thesis
        using True Inr by simp
    qed
  qed
qed

section \<open>Selector texts of well-formed rules\<close>

lemma toLowerChar_toUpperChar: "toLowerChar (toUpperChar c) = toLowerChar c"
  by (simp add: toLowerChar_def toUpperChar_def lowerAlphabet_def upperAlphabet_def)

lemma toUpperChar_toUpperChar: "toUpperChar (toUpperChar c) = toUpperChar c"
  by (simp add: toLowerChar_def toUpperChar_def lowerAlphabet_def upperAlphabet_def)

lemma toLowerCase_toUpperCase: "toLowerCase (toUpperCase s) = toLowerCase s"
  by (simp add: toLowerCase_def toUpperCase_def toLowerChar_toUpperChar)

lemma toUpperCase_toUpperCase: "toUpperCase (toUpperCase s) = toUpperCase s"
  by (simp add: toUpperCase_def toUpperChar_toUpperChar)

lemma tag_matches_type:
  assumes "toUpperCase (tagName n) = toUpperCase s" and "toLowerCase (localName n) = localName n"
  shows "localName n = toLowerCase s"
proof -
  have "toLowerCase (toUpperCase (tagName n)) = toLowerCase (toUpperCase s)"
    using assms(1) by simp
  then have "toLowerCase (localName n) = toLowerCase s"
    by (simp add: tagName_def toLowerCase_toUpperCase)
  then show ?thesis using assms(2) by simp
qed

lemma isDigit_not_identStart: "isDigit c \<Longrightarrow> \<not> identStart c"
  by (auto simp: isDigit_def identStart_def isLetter_def lowerAlphabet_def upperAlphabet_def)

lemma punctuation:
  "\<not> identChar (CHR ''*'')" "\<not> identChar (CHR ''='')" "\<not> identChar (CHR ''['')"
  "\<not> identChar (CHR 0x22)" "\<not> identChar (CHR '']'')" "\<not> identChar (CHR ''.'')"
  "\<not> isDigit (CHR ''-'')" "\<not> identChar (CHR 0x5C)"
  by (simp_all add: identChar_def identStart_def isLetter_def isDigit_def lowerAlphabet_def upperAlphabet_def)

lemma validIdent_head:
  "validIdent s \<Longrightarrow> list_all identChar s \<Longrightarrow> \<exists>c r. s = c # r \<and> identChar c \<and> \<not> isDigit c \<and> c \<noteq> CHR ''*''"
  using punctuation(1) isDigit_not_identStart
  by (cases s rule: validIdent.cases) (auto simp: identChar_def isDigit_def split: if_splits)

lemma takeWhile_all: "\<forall>x\<in>set xs. P x \<Longrightarrow> takeWhile P xs = xs"
  by (induction xs) auto

lemma dropWhile_all: "\<forall>x\<in>set xs. P x \<Longrightarrow> dropWhile P xs = []"
  by (induction xs) auto

lemma takeWhile_stop: "\<forall>x\<in>set xs. P x \<Longrightarrow> \<not> P c \<Longrightarrow> takeWhile P (xs @ c # r) = xs"
  by (induction xs) auto

lemma dropWhile_stop: "\<forall>x\<in>set xs. P x \<Longrightarrow> \<not> P c \<Longrightarrow> dropWhile P (xs @ c # r) = c # r"
  by (induction xs) auto

lemma parse_type:
  assumes "isIdent s"
  shows "parseSelector s = Parsed [TypeSel s]"
proof -
  have v: "validIdent s" and a: "\<forall>x\<in>set s. identChar x"
    using assms by (simp_all add: isIdent_def list_all_iff)
  then have "list_all identChar s" by (simp add: list_all_iff)
  from validIdent_head [OF v this] obtain c r where s: "s = c # r" and c: "identChar c" "\<not> isDigit c" "c \<noteq> CHR ''*''"
    by blast
  have r: "\<forall>x\<in>set r. identChar x"
    using a s by simp
  show ?thesis
    using v c r unfolding parseSelector_def s by (simp add: Let_def takeWhile_all dropWhile_all)
qed

lemma parse_class:
  assumes "isIdent v"
  shows "parseSelector (CHR ''.'' # v) = Parsed [ClassSel v]"
proof -
  have v: "validIdent v" and a: "\<forall>x\<in>set v. identChar x"
    using assms by (simp_all add: isIdent_def list_all_iff)
  have "parseName ClassSel v = Parsed (ClassSel v, [])"
    using v a by (simp add: parseName_def Let_def takeWhile_all dropWhile_all)
  then show ?thesis
    using punctuation by (simp add: parseSelector_def parseSimple_def)
qed

lemma parse_value:
  assumes "safeValue v"
  shows "parseValue mk (CHR 0x22 # v @ [CHR 0x22, CHR '']'']) = Parsed (mk v, [])"
proof -
  have q: "\<forall>x\<in>set v. x \<noteq> CHR 0x22"
    using assms by (auto simp: safeValue_def list_ex_iff)
  have b: "\<not> list_ex (\<lambda>x. x = CHR 0x5C \<or> x = CHR 0x0A \<or> x = CHR 0x0C \<or> x = CHR 0x0D) v"
    using assms by (auto simp: safeValue_def list_ex_iff)
  have t: "takeWhile (\<lambda>x. x \<noteq> CHR 0x22) (v @ [CHR 0x22, CHR '']'']) = v"
    using q by (intro takeWhile_stop) simp_all
  have d: "dropWhile (\<lambda>x. x \<noteq> CHR 0x22) (v @ [CHR 0x22, CHR '']'']) = [CHR 0x22, CHR '']'']"
    using q by (intro dropWhile_stop) simp_all
  show ?thesis
    using b by (simp add: parseValue_def t d)
qed

lemma parse_attribute:
  assumes "isIdent a" and "safeValue v"
  shows "parseSelector (attributeSelector a v) = Parsed [AttrEquals a v]"
proof -
  have va: "validIdent a" and aa: "\<forall>x\<in>set a. identChar x"
    using assms by (simp_all add: isIdent_def list_all_iff)
  let ?rest = "CHR ''='' # CHR 0x22 # v @ [CHR 0x22, CHR '']'']"
  have t: "takeWhile identChar (a @ ?rest) = a" and d: "dropWhile identChar (a @ ?rest) = ?rest"
    using aa punctuation by (simp_all add: takeWhile_stop dropWhile_stop)
  have "parseAttribute (a @ ?rest) = Parsed (AttrEquals a v, [])"
    using va by (simp add: parseAttribute_def t d parse_value [OF assms(2)])
  then show ?thesis
    using punctuation by (simp add: parseSelector_def attributeSelector_def parseSimple_def)
qed


section \<open>The claims\<close>

subsection \<open>Hidden nodes stay hidden\<close>

lemma hideElement_twice: "hideElement (hideElement n) = hideElement n"
  by (cases n) simp_all

lemma hidden_hideElement: "nodeType n = ELEMENT_NODE \<Longrightarrow> hidden (hideElement n)"
  by (cases n) (simp_all add: hidden_def ELEMENT_NODE_def)

lemma hideAllElements_again:
  assumes "hideAllElements rs doc = Inr d"
  shows "hideAllElements rs d = Inr d"
proof -
  let ?A = "\<lambda>n. list_ex (\<lambda>r. picks r n) rs"
  have ok: "list_all (\<lambda>r. ruleError r = None) rs" and d: "d = hideWhere ?A doc"
    using assms by (simp_all add: hideAllElements_def forEachRule_document split: if_splits)
  have "hideWhere ?A (hideWhere ?A doc) = hideWhere (\<lambda>n. ?A n \<or> ?A n) doc"
    by (rule hideWhere_twice [OF blind_any])
  then show ?thesis
    using ok d by (simp add: hideAllElements_def forEachRule_document)
qed

text \<open>
  C4. The set of hidden nodes only grows: a node that is hidden stays hidden through the
  sweep, through \<open>hideElementsInNode\<close> and through the observer callback, whether they return
  or raise; hiding a hidden element again changes nothing, and a second sweep over the
  result of a sweep returns the same tree.
\<close>

theorem hidden_nodes_only_grow:
  "hideElement (hideElement n) = hideElement n \<and>
   (nodeType n = ELEMENT_NODE \<longrightarrow> hidden (hideElement n)) \<and>
   (hiddenAt doc p \<longrightarrow> hiddenAt (after (hideAllElements hideRules doc)) p) \<and>
   (hiddenAt doc p \<longrightarrow> hiddenAt (after (hideElementsInNode resolveURL hideRules doc)) p) \<and>
   (hiddenAt doc p \<longrightarrow> hiddenAt (after (observerCallback resolveURL hideRules mutations doc)) p) \<and>
   (hideAllElements hideRules doc = Inr d \<longrightarrow> hideAllElements hideRules d = Inr d)"
proof (intro conjI impI)
  show "hideElement (hideElement n) = hideElement n"
    by (rule hideElement_twice)
  show "hidden (hideElement n)" if "nodeType n = ELEMENT_NODE"
    using that by (rule hidden_hideElement)
  show "hiddenAt (after (hideAllElements hideRules doc)) p" if "hiddenAt doc p"
    using grows_hideAllElements that by (rule grows_hiddenAt)
  show "hiddenAt (after (hideElementsInNode resolveURL hideRules doc)) p" if "hiddenAt doc p"
    using grows_hideElementsInNode that by (rule grows_hiddenAt)
  show "hiddenAt (after (observerCallback resolveURL hideRules mutations doc)) p" if "hiddenAt doc p"
    using grows_observerCallback that by (rule grows_hiddenAt)
  show "hideAllElements hideRules d = Inr d" if "hideAllElements hideRules doc = Inr d"
    using that by (rule hideAllElements_again)
qed

theorem hidden_nodes_only_grow_witness:
  "nodeType (Element ''div'' [] [] []) = ELEMENT_NODE \<and>
   hidden (hideElement (Element ''div'' [] [] [])) \<and>
   hiddenAt hiddenPage [0] \<and>
   hiddenAt (after (hideAllElements [classRule ''BIG_BROTHER_BRASIL'', classRule ''1x''] hiddenPage)) [0] \<and>
   hiddenAt (after (observerCallback (resolveAt ''https://site.com'') [classRule ''BIG_BROTHER_BRASIL'']
      [\<lparr>mutationType = ''childList'', addedNodes = [[1]]\<rparr>] hiddenPage)) [0] \<and>
   hideAllElements [classRule ''BIG_BROTHER_BRASIL''] hiddenPage =
     Inr (Element ''body'' [] []
       [Element ''div'' [(''class'', ''ad'')] ''none'' [Text ''x''],
        Element ''div'' [(''class'', ''BIG_BROTHER_BRASIL'')] ''none'' [Text ''y'']]) \<and>
   hideAllElements [classRule ''BIG_BROTHER_BRASIL'']
     (Element ''body'' [] []
       [Element ''div'' [(''class'', ''ad'')] ''none'' [Text ''x''],
        Element ''div'' [(''class'', ''BIG_BROTHER_BRASIL'')] ''none'' [Text ''y'']]) =
     Inr (Element ''body'' [] []
       [Element ''div'' [(''class'', ''ad'')] ''none'' [Text ''x''],
        Element ''div'' [(''class'', ''BIG_BROTHER_BRASIL'')] ''none'' [Text ''y'']])"
proof -
  have e: "nodeType (Element ''div'' [] [] []) = ELEMENT_NODE"
    by (simp add: ELEMENT_NODE_def)
  have h: "hiddenAt hiddenPage [0]"
    by (simp add: hiddenAt_def hiddenPage_def hidden_def)
  have s: "hideAllElements [classRule ''BIG_BROTHER_BRASIL''] hiddenPage =
     Inr (Element ''body'' [] []
       [Element ''div'' [(''class'', ''ad'')] ''none'' [Text ''x''],
        Element ''div'' [(''class'', ''BIG_BROTHER_BRASIL'')] ''none'' [Text ''y'']])"
    by code_simp
  note t = hidden_nodes_only_grow [of "Element ''div'' [] [] []" hiddenPage "[0]"]
  show ?thesis
    using e h s
      t [of "[classRule ''BIG_BROTHER_BRASIL'', classRule ''1x'']"]
      t [of "[classRule ''BIG_BROTHER_BRASIL'']" "resolveAt ''https://site.com''"
           "[\<lparr>mutationType = ''childList'', addedNodes = [[1]]\<rparr>]"]
    by simp
qed

subsection \<open>The frame of the hide action\<close>





subsection \<open>Empty text and empty title\<close>

lemma picks_filter: "picks r n \<Longrightarrow> ruleFilter r n"
  by (auto simp: picks_def split: option.splits parsed.splits)

lemma hiddenAt_hideBelow:
  "nodeAt t p = Some n \<Longrightarrow> \<not> P n \<Longrightarrow> hiddenAt (hideBelow P t) p = hiddenAt t p"
proof (cases p)
  case Nil
  then show ?thesis by (cases t) (simp_all add: hiddenAt_def hideBelow_def hidden_def)
next
  case (Cons i q)
  assume "nodeAt t p = Some n" "\<not> P n"
  then show ?thesis
    using Cons nodeAt_hideBelow [of p P t] by (simp add: hiddenAt_def hidden_hideWhere)
qed

text \<open>
  C9. An element whose text content is empty never matches a content rule, and an element
  whose title is empty never matches a title rule, whatever the rule's value, the empty
  value included: the self-check is false, and neither the sweep nor the descendant search
  of that rule changes whether the element is hidden.
\<close>

theorem empty_text_or_title_never_matches:
  "(type r = ''content'' \<and> textContent n = []) \<or> (type r = ''title'' \<and> title n = []) \<Longrightarrow>
   \<not> matchesRule resolveURL n r \<and>
   (nodeAt doc p = Some n \<longrightarrow> hiddenAt (after (applyHideRule r doc)) p = hiddenAt doc p) \<and>
   (nodeAt doc p = Some n \<longrightarrow> hiddenAt (after (hideDescendants r doc)) p = hiddenAt doc p)"
proof -
  assume a: "(type r = ''content'' \<and> textContent n = []) \<or> (type r = ''title'' \<and> title n = [])"
  then have f: "\<not> ruleFilter r n"
    by (auto simp: ruleFilter_def)
  then have np: "\<not> picks r n"
    using picks_filter by blast
  have m: "\<not> matchesRule resolveURL n r"
    using a by (auto simp: matchesRule_def)
  have s: "hiddenAt (after (applyHideRule r doc)) p = hiddenAt doc p" if "nodeAt doc p = Some n"
    using that np
    by (cases "ruleError r") (simp_all add: applyHideRule_canon hiddenAt_hideWhere, simp add: hiddenAt_def)
  have d: "hiddenAt (after (hideDescendants r doc)) p = hiddenAt doc p" if "nodeAt doc p = Some n"
    using that np
    by (cases "ruleError r") (simp_all add: hideDescendants_canon hiddenAt_hideBelow)
  show ?thesis using m s d by blast
qed

theorem empty_text_or_title_never_matches_witness:
  "type (contentRule ''span'' []) = ''content'' \<and>
   textContent (Element ''span'' [(''title'', [])] [] [Comment ''no text'']) = [] \<and>
   nodeAt emptySpanPage [0] = Some (Element ''span'' [(''title'', [])] [] [Comment ''no text'']) \<and>
   \<not> matchesRule (resolveAt ''https://site.com'')
       (Element ''span'' [(''title'', [])] [] [Comment ''no text'']) (contentRule ''span'' []) \<and>
   hiddenAt (after (applyHideRule (contentRule ''span'' []) emptySpanPage)) [0] = hiddenAt emptySpanPage [0] \<and>
   \<not> hiddenAt emptySpanPage [0] \<and>
   hiddenAt (after (applyHideRule (contentRule ''span'' []) emptySpanPage)) [1]"
proof -
  have t: "type (contentRule ''span'' []) = ''content''"
    by (simp add: contentRule_def)
  have e: "textContent (Element ''span'' [(''title'', [])] [] [Comment ''no text'']) = []"
    by simp
  have at: "nodeAt emptySpanPage [0] = Some (Element ''span'' [(''title'', [])] [] [Comment ''no text''])"
    by (simp add: emptySpanPage_def)
  have h: "\<not> hiddenAt emptySpanPage [0]"
    by (simp add: emptySpanPage_def hiddenAt_def hidden_def)
  have o: "hiddenAt (after (applyHideRule (contentRule ''span'' []) emptySpanPage)) [1]"
    by code_simp
  from empty_text_or_title_never_matches [of "contentRule ''span'' []"
      "Element ''span'' [(''title'', [])] [] [Comment ''no text'']" "resolveAt ''https://site.com''"
      emptySpanPage "[0]"]
  show ?thesis using t e at h o by simp
qed

subsection \<open>Attribute rules\<close>



subsection \<open>The selector of content and title rules\<close>



lemma matchesRule_selector:
  assumes "type r = ''content'' \<or> type r = ''title''"
  shows "matchesRule resolveURL n r =
    (toUpperCase (localName n) = toUpperCase (selector r) \<and> ruleFilter r n)"
  using assms by (auto simp: matchesRule_def ruleFilter_def tagName_def toUpperCase_toUpperCase)

lemma selector_rule_canon:
  assumes "type r = ''content'' \<or> type r = ''title''"
  shows "ruleText r = Some (selector r)"
  using assms by (auto simp: ruleText_def)

lemma picks_parsed:
  "ruleText r = Some t \<Longrightarrow> parseSelector t = Parsed sel \<Longrightarrow>
   picks r = (\<lambda>n. matchesSelector sel n \<and> ruleFilter r n)"
  by (simp add: picks_def fun_eq_iff)






subsection \<open>Href rules\<close>







subsection \<open>Malformed rules\<close>








subsection \<open>The order of the rules\<close>








subsection \<open>Added subtrees\<close>

lemma plainRule_parses:
  assumes "plainRule r"
  shows "ruleError r = None"
proof -
  consider (cls) "type r = ''class''" "isIdent (value r)"
    | (sel) "type r = ''content'' \<or> type r = ''title''" "isIdent (selector r)"
    | (attr) "type r = ''attribute''" "isIdent (attr r)" "safeValue (value r)"
    using assms by (auto simp: plainRule_def split: if_splits)
  then show ?thesis
  proof cases
    case cls
    then show ?thesis
      using parse_class [of "value r"] by (simp add: ruleError_def ruleText_def)
  next
    case sel
    then show ?thesis
      using parse_type [of "selector r"] by (auto simp: ruleError_def ruleText_def)
  next
    case attr
    then show ?thesis
      using parse_attribute [of "attr r" "value r"] by (simp add: ruleError_def ruleText_def)
  qed
qed

lemma plainRule_picks:
  assumes "plainRule r" and "matchesRule resolveURL n r" and "toLowerCase (localName n) = localName n"
  shows "picks r n"
proof -
  consider (cls) "type r = ''class''" "isIdent (value r)"
    | (sel) "type r = ''content'' \<or> type r = ''title''" "isIdent (selector r)"
    | (attr) "type r = ''attribute''" "isIdent (attr r)" "safeValue (value r)"
    using assms(1) by (auto simp: plainRule_def split: if_splits)
  then show ?thesis
  proof cases
    case cls
    have "ruleText r = Some (CHR ''.'' # value r)"
      using cls by (simp add: ruleText_def)
    from picks_parsed [OF this parse_class [OF cls(2)]] show ?thesis
      using cls assms(2) by (simp add: matchesSelector_def matchesRule_def ruleFilter_def)
  next
    case sel
    have m: "toUpperCase (localName n) = toUpperCase (selector r)" and f: "ruleFilter r n"
      using assms(2) matchesRule_selector [OF sel(1)] by auto
    have "toUpperCase (tagName n) = toUpperCase (selector r)"
      using m by (simp add: tagName_def toUpperCase_toUpperCase)
    from tag_matches_type [OF this assms(3)] have l: "localName n = toLowerCase (selector r)" .
    from picks_parsed [OF selector_rule_canon [OF sel(1)] parse_type [OF sel(2)]] show ?thesis
      using l f by (simp add: matchesSelector_def)
  next
    case attr
    have "ruleText r = Some (attributeSelector (attr r) (value r))"
      using attr by (simp add: ruleText_def)
    from picks_parsed [OF this parse_attribute [OF attr(2,3)]] show ?thesis
      using attr assms(2) by (simp add: matchesSelector_def matchesRule_def ruleFilter_def)
  qed
qed










subsection \<open>The sweep\<close>

lemma sweep_hides_plain_matches:
  assumes "hideAllElements hideRules doc = Inr d" and "r \<in> set hideRules" and "plainRule r"
    and "nodeAt doc p = Some n" and "nodeType n = ELEMENT_NODE"
    and "toLowerCase (localName n) = localName n" and "matchesRule resolveURL n r"
  shows "hiddenAt d p"
proof -
  have d: "d = hideWhere (\<lambda>n. list_ex (\<lambda>r. picks r n) hideRules) doc"
    using assms(1) by (simp add: hideAllElements_def forEachRule_document split: if_splits)
  have "picks r n"
    using plainRule_picks [OF assms(3,7,6)] .
  then have "list_ex (\<lambda>r. picks r n) hideRules"
    using assms(2) by (auto simp: list_ex_iff)
  then show ?thesis
    unfolding d using assms(4,5) by (simp add: hiddenAt_hideWhere)
qed

text \<open>
  C1. The sweep does not hide every node that \<open>matchesRule\<close> accepts: the self-check of an
  href rule reads the resolved URL, and the query of the sweep reads the \<open>href\<close> attribute as
  written. On a page served from \<open>https://site.com\<close> the anchor with \<open>href="/bbb/post"\<close>
  matches the rule with value \<open>site.com\<close>, the sweep leaves it visible, and
  \<open>hideElementsInNode\<close> hides the same anchor when it arrives as an added node.
\<close>

theorem sweep_misses_resolved_href:
  "nodeAt linkPage [0] = Some (Element ''a'' [(''href'', ''/bbb/post'')] [] [Text ''text'']) \<and>
   safeValue (value (hrefRule ''site.com'')) \<and>
   matchesRule (resolveAt ''https://site.com'') (Element ''a'' [(''href'', ''/bbb/post'')] [] [Text ''text''])
     (hrefRule ''site.com'') \<and>
   hideAllElements [hrefRule ''site.com''] linkPage = Inr linkPageSecondHidden \<and>
   \<not> hiddenAt linkPageSecondHidden [0] \<and>
   hideElementsInNode (resolveAt ''https://site.com'') [hrefRule ''site.com'']
     (Element ''a'' [(''href'', ''/bbb/post'')] [] [Text ''text'']) =
     Inr (Element ''a'' [(''href'', ''/bbb/post'')] ''none'' [Text ''text''])"
  by code_simp

end
